theory Spec2Isabelle
  imports Complex_Main "HOL-Library.Product_Lexorder"
begin

section \<open>Python values, exceptions and outcomes\<close>

text \<open>
  The development embeds \<^verbatim>\<open>cryptofeed/feedhandler.py\<close>: the class \<^verbatim>\<open>FeedHandler\<close>
  (the specification's FeedSupervisor) and \<^verbatim>\<open>setup_signal_handlers\<close> (its SignalBridge).
  The specification's names map onto the code as follows: \<^verbatim>\<open>register\<close> is \<^verbatim>\<open>add_feed\<close>,
  \<^verbatim>\<open>attachAggregate\<close> is \<^verbatim>\<open>add_nbbo\<close>, \<^verbatim>\<open>InvalidFeedError\<close> is the
  \<^verbatim>\<open>ValueError("Invalid feed specified")\<close> of \<^verbatim>\<open>add_feed\<close>, \<^verbatim>\<open>ConfigurationError\<close>
  is the \<^verbatim>\<open>ValueError\<close> of \<^verbatim>\<open>run\<close>, and TerminationState is the attribute
  \<^verbatim>\<open>self.retries\<close> once it is 0.
\<close>

datatype exn =
    SystemExit
  | KeyboardInterrupt
  | CancelledError
  | ValueError string
  | TypeError string
  | AttributeError string
  | IndexError string
  | RuntimeError string

text \<open>\<^verbatim>\<open>isinstance(e, Exception)\<close>, with the class hierarchy of Python 3.8 and later,
  where \<^verbatim>\<open>CancelledError\<close> derives from \<^verbatim>\<open>BaseException\<close>.\<close>

fun is_Exception :: "exn \<Rightarrow> bool" where
  "is_Exception SystemExit = False"
| "is_Exception KeyboardInterrupt = False"
| "is_Exception CancelledError = False"
| "is_Exception _ = True"

text \<open>Every method of \<^verbatim>\<open>FeedHandler\<close> returns \<^verbatim>\<open>None\<close>, so a call either returns,
  raises, or never comes back (the event loop waits for ever).\<close>

datatype outcome = Returns | Raises exn | Never

datatype channel = L2_BOOK | Channel string

datatype pyval =
    PNone
  | PStr string
  | PChan channel
  | PList "pyval list"
  | PDict "(pyval \<times> pyval) list"
  | PConfig pyval
  | PInt int
  | PExn exn
  | PNBBO nat

type_synonym kwargs = "(string \<times> pyval) list"

section \<open>Coroutines and tasks of the event loop\<close>

text \<open>
  A coroutine body, as far as the event loop sees it: it returns, raises, or suspends at
  an \<^verbatim>\<open>await\<close>. \<open>Await k h\<close> suspends once; resumed normally it goes on as \<open>k\<close>, resumed by
  a cancellation (\<^verbatim>\<open>CancelledError\<close> thrown in at the \<^verbatim>\<open>await\<close>) it goes on as \<open>h\<close>.
  \<open>Block h\<close> awaits something that never arrives; only a cancellation resumes it, as \<open>h\<close>.
\<close>

datatype coro =
    Return
  | Raise exn
  | Await coro coro
  | Block coro

text \<open>How a task ended: its coroutine returned, or raised (a cancelled task ends with
  \<^verbatim>\<open>CancelledError\<close>).\<close>

datatype result = Returned | Raised exn

datatype task_state =
    NotStarted coro
  | SuspendedAt coro coro
  | BlockedAt coro
  | Done result

record task =
  tname :: "string option"
  tstate :: task_state
  must_cancel :: bool

section \<open>Feeds, the exchange registry and the state of the program\<close>

text \<open>
  Modelled from the spec: \<^verbatim>\<open>cryptofeed.feed.Feed\<close> is not part of the source at hand. A
  Feed is an opaque unit with an identifier and the capabilities \<^verbatim>\<open>start(loop)\<close> and
  \<^verbatim>\<open>shutdown()\<close>: \<open>start_coros\<close> are the coroutines that \<^verbatim>\<open>start\<close> schedules on the loop
  (its connection handlers), \<open>shutdown_coro\<close> is the body of the coroutine that
  \<^verbatim>\<open>shutdown()\<close> returns.
\<close>

record feed =
  feed_id :: string
  start_coros :: "coro list"
  shutdown_coro :: coro

text \<open>A Feed class is what it does when called with keyword arguments: it raises or it
  returns an instance. The classes themselves are outside the source at hand.\<close>

type_synonym feed_ctor = "kwargs \<Rightarrow> exn + feed"

text \<open>The first argument of \<^verbatim>\<open>add_feed\<close>: a \<^verbatim>\<open>str\<close> or an object.\<close>

datatype feed_spec = Name string | Instance feed

datatype signal = SIGABRT | SIGINT | SIGTERM | SIGHUP

datatype level = INFO | CRITICAL | EXCEPTION

datatype nbbo_obj = NBBO string "string list"

datatype event =
    Log level string "pyval list"
  | SignalSignal signal
  | AddSignalHandler signal
  | SetExceptionHandler string
  | FeedStart string
  | CreateTask nat
  | SetName nat string
  | SetRetries int
  | LoopStop
  | RunForever
  | Cancel nat
  | RunUntilComplete "nat list" bool
  | ShutdownAsyncgens
  | LoopClose

text \<open>
  One record holds the \<^verbatim>\<open>FeedHandler\<close> object (\<open>feeds\<close>, \<open>config\<close>, \<open>retries\<close>, the
  latter absent until \<^verbatim>\<open>stop\<close> assigns it), the module globals that the source takes from
  modules outside the source at hand (\<open>EXCHANGES\<close>, a dict in insertion order; \<open>SIGNALS\<close>;
  \<open>platform\<close> for \<^verbatim>\<open>sys.platform\<close>; \<open>has_set_name\<close> for Python 3.8 and later), the one
  event loop that \<^verbatim>\<open>asyncio.get_event_loop()\<close> returns (\<open>tasks\<close>, indexed by creation
  order, and its flags), the \<^verbatim>\<open>NBBO\<close> objects built so far, and the trace of the calls
  made on the logger and on the loop.
\<close>

record state =
  feeds :: "feed list"
  config :: pyval
  retries :: "int option"
  EXCHANGES :: "(string \<times> feed_ctor) list"
  SIGNALS :: "signal list"
  platform :: string
  has_set_name :: bool
  tasks :: "task list"
  exception_handler :: "string option"
  asyncgens_closed :: bool
  closed :: bool
  nbbos :: "nbbo_obj list"
  trace :: "event list"

definition emit :: "event \<Rightarrow> state \<Rightarrow> state" where
  "emit e s = s\<lparr>trace := trace s @ [e]\<rparr>"

section \<open>Registration: \<^verbatim>\<open>add_feed\<close>\<close>

text \<open>
  \<^verbatim>\<open>_EXCHANGES[feed](config=self.config, **kwargs)\<close>: Python refuses a call that gives the
  keyword \<^verbatim>\<open>config\<close> twice, before the class is entered.
\<close>

definition call_ctor :: "feed_ctor \<Rightarrow> pyval \<Rightarrow> kwargs \<Rightarrow> exn + feed" where
  "call_ctor c cfg kw =
     (if ''config'' \<in> set (map fst kw)
      then Inl (TypeError ''got multiple values for keyword argument config'')
      else c ((''config'', cfg) # kw))"

definition add_feed :: "feed_spec \<Rightarrow> kwargs \<Rightarrow> state \<Rightarrow> outcome \<times> state" where
  "add_feed fd kw s =
     (case fd of
        Name n \<Rightarrow>
          (case map_of (EXCHANGES s) n of
             Some c \<Rightarrow>
               (case call_ctor c (config s) kw of
                  Inl e \<Rightarrow> (Raises e, s)
                | Inr f \<Rightarrow> (Returns, s\<lparr>feeds := feeds s @ [f]\<rparr>))
           | None \<Rightarrow> (Raises (ValueError ''Invalid feed specified''), s))
      | Instance f \<Rightarrow> (Returns, s\<lparr>feeds := feeds s @ [f]\<rparr>))"

text \<open>
  Binding the arguments of a call \<^verbatim>\<open>self.add_feed(*args, **kw)\<close> to the signature
  \<^verbatim>\<open>add_feed(self, feed, **kwargs)\<close>: exactly one positional argument is accepted.
\<close>

definition call_add_feed :: "feed_spec list \<Rightarrow> kwargs \<Rightarrow> state \<Rightarrow> outcome \<times> state" where
  "call_add_feed args kw s =
     (case args of
        [] \<Rightarrow> (Raises (TypeError ''add_feed() missing 1 required positional argument: feed''), s)
      | [fd] \<Rightarrow> add_feed fd kw s
      | _ \<Rightarrow> (Raises (TypeError ''add_feed() takes 2 positional arguments but more were given''), s))"

section \<open>The event loop\<close>

text \<open>
  The part of \<^verbatim>\<open>asyncio\<close> that the source calls, as its documentation describes it, for one
  open loop that is driven only by the calls below. One iteration of the loop resumes every
  task that can run, in creation order. A task that is resumed after \<^verbatim>\<open>cancel()\<close> gets
  \<^verbatim>\<open>CancelledError\<close> thrown in where it waits; a task cancelled before its first step
  ends cancelled without running. \<^verbatim>\<open>SystemExit\<close> and \<^verbatim>\<open>KeyboardInterrupt\<close> raised by a
  task's step are stored on the task and also leave the loop; every other exception stays
  on the task. Task bodies do not create tasks, cancel tasks or stop the loop.
\<close>

definition run_code :: "coro \<Rightarrow> task_state" where
  "run_code c =
     (case c of
        Return \<Rightarrow> Done Returned
      | Raise e \<Rightarrow> Done (Raised e)
      | Await k h \<Rightarrow> SuspendedAt k h
      | Block h \<Rightarrow> BlockedAt h)"

definition step :: "task \<Rightarrow> task" where
  "step t =
     (if must_cancel t then
        (case tstate t of
           NotStarted c \<Rightarrow> t\<lparr>tstate := Done (Raised CancelledError), must_cancel := False\<rparr>
         | SuspendedAt k h \<Rightarrow> t\<lparr>tstate := run_code h, must_cancel := False\<rparr>
         | BlockedAt h \<Rightarrow> t\<lparr>tstate := run_code h, must_cancel := False\<rparr>
         | Done r \<Rightarrow> t)
      else
        (case tstate t of
           NotStarted c \<Rightarrow> t\<lparr>tstate := run_code c\<rparr>
         | SuspendedAt k h \<Rightarrow> t\<lparr>tstate := run_code k\<rparr>
         | BlockedAt h \<Rightarrow> t
         | Done r \<Rightarrow> t))"

definition is_done :: "task \<Rightarrow> bool" where
  "is_done t = (case tstate t of Done r \<Rightarrow> True | _ \<Rightarrow> False)"

text \<open>A task can run in the next iteration unless it is done or waits for something
  that never arrives and has not been cancelled.\<close>

definition runnable :: "task \<Rightarrow> bool" where
  "runnable t =
     (case tstate t of
        Done r \<Rightarrow> False
      | BlockedAt h \<Rightarrow> must_cancel t
      | _ \<Rightarrow> True)"

definition escaping :: "task \<Rightarrow> task \<Rightarrow> exn option" where
  "escaping t t' =
     (if is_done t then None
      else (case tstate t' of
              Done (Raised e) \<Rightarrow> if e = SystemExit \<or> e = KeyboardInterrupt then Some e else None
            | _ \<Rightarrow> None))"

fun run_once :: "task list \<Rightarrow> exn option \<times> task list" where
  "run_once [] = (None, [])"
| "run_once (t # ts) =
     (case escaping t (step t) of
        Some e \<Rightarrow> (Some e, step t # ts)
      | None \<Rightarrow> (case run_once ts of (r, ts') \<Rightarrow> (r, step t # ts')))"

fun iterate :: "nat \<Rightarrow> task list \<Rightarrow> exn option \<times> task list" where
  "iterate 0 ts = (None, ts)"
| "iterate (Suc n) ts =
     (case run_once ts of
        (Some e, ts') \<Rightarrow> (Some e, ts')
      | (None, ts') \<Rightarrow> iterate n ts')"

definition task_outcome :: "task list \<Rightarrow> nat \<Rightarrow> result option" where
  "task_outcome ts i =
     (if i < length ts then (case tstate (ts ! i) of Done r \<Rightarrow> Some r | _ \<Rightarrow> None) else None)"

fun first_exception :: "result option list \<Rightarrow> exn option" where
  "first_exception [] = None"
| "first_exception (Some (Raised e) # rs) = Some e"
| "first_exception (r # rs) = first_exception rs"

text \<open>
  The future \<^verbatim>\<open>asyncio.gather(*ids, return_exceptions=...)\<close>, read between two iterations:
  \<open>None\<close> while it is pending. Without \<^verbatim>\<open>return_exceptions\<close> the first exception of a
  child (a cancellation included) becomes the exception of the future at once, the other
  children keep running; with it, the future waits for every child and holds their
  exceptions as results. (In \<^verbatim>\<open>asyncio\<close> the result reaches the caller of
  \<^verbatim>\<open>run_until_complete\<close> through two callbacks, a few iterations later; here it is read
  as soon as the iteration is over.)
\<close>

definition gather_result :: "nat list \<Rightarrow> bool \<Rightarrow> task list \<Rightarrow> result option" where
  "gather_result ids return_exceptions ts =
     (let rs = map (task_outcome ts) ids in
      case (if return_exceptions then None else first_exception rs) of
        Some e \<Rightarrow> Some (Raised e)
      | None \<Rightarrow> if list_all (\<lambda>r. r \<noteq> None) rs then Some Returned else None)"

fun code_weight :: "coro \<Rightarrow> nat" where
  "code_weight Return = 1"
| "code_weight (Raise e) = 1"
| "code_weight (Await k h) = Suc (code_weight k + code_weight h)"
| "code_weight (Block h) = Suc (code_weight h)"

definition weight :: "task \<Rightarrow> nat" where
  "weight t =
     (case tstate t of
        NotStarted c \<Rightarrow> Suc (code_weight c)
      | SuspendedAt k h \<Rightarrow> Suc (code_weight k + code_weight h)
      | BlockedAt h \<Rightarrow> Suc (code_weight h)
      | Done r \<Rightarrow> 0)"

text \<open>
  \<^verbatim>\<open>loop.run_until_complete(asyncio.gather(...))\<close> on the tasks of the loop: iterations
  until the future is done; the call then returns, or raises the exception of the future.
  When the future is pending and no task can run, the call never returns.
\<close>

function drive_until :: "nat list \<Rightarrow> bool \<Rightarrow> task list \<Rightarrow> outcome \<times> task list" where
  "drive_until ids return_exceptions ts =
     (case gather_result ids return_exceptions ts of
        Some Returned \<Rightarrow> (Returns, ts)
      | Some (Raised e) \<Rightarrow> (Raises e, ts)
      | None \<Rightarrow>
          if \<not> list_ex runnable ts then (Never, ts)
          else (case run_once ts of
                  (Some e, ts') \<Rightarrow> (Raises e, ts')
                | (None, ts') \<Rightarrow> drive_until ids return_exceptions ts'))"
  by pat_completeness auto

lemma weight_step_le: "weight (step t) \<le> weight t"
  by (cases "tstate t"; cases "must_cancel t")
     (auto simp: step_def weight_def run_code_def split: coro.splits)

lemma weight_step_less: "runnable t \<Longrightarrow> weight (step t) < weight t"
  by (cases "tstate t"; cases "must_cancel t")
     (auto simp: step_def weight_def run_code_def runnable_def split: coro.splits)

lemma run_once_weight_le:
  "run_once ts = (r, ts') \<Longrightarrow> sum_list (map weight ts') \<le> sum_list (map weight ts)"
proof (induction ts arbitrary: r ts')
  case Nil
  then show ?case by simp
next
  case (Cons t ts)
  then show ?case
    using weight_step_le [of t]
    by (auto split: option.splits prod.splits simp: add_mono)
qed

lemma run_once_weight_less:
  "run_once ts = (None, ts') \<Longrightarrow> list_ex runnable ts \<Longrightarrow>
   sum_list (map weight ts') < sum_list (map weight ts)"
proof (induction ts arbitrary: ts')
  case Nil
  then show ?case by simp
next
  case (Cons t ts)
  from Cons.prems(1) obtain us where
    us: "run_once ts = (None, us)" and ts': "ts' = step t # us"
    by (auto split: option.splits prod.splits)
  show ?case
  proof (cases "runnable t")
    case True
    with weight_step_less [of t] run_once_weight_le [OF us] ts'
    show ?thesis by simp
  next
    case False
    with Cons.prems(2) have "list_ex runnable ts" by simp
    from Cons.IH [OF us this] weight_step_le [of t] ts'
    show ?thesis by simp
  qed
qed

termination drive_until
  by (relation "measure (\<lambda>(ids, re, ts). sum_list (map weight ts))")
     (auto dest: run_once_weight_less [OF sym])

declare drive_until.simps [simp del]

definition new_task :: "coro \<Rightarrow> task" where
  "new_task c = \<lparr>tname = None, tstate = NotStarted c, must_cancel = False\<rparr>"

definition create_task :: "coro \<Rightarrow> state \<Rightarrow> nat \<times> state" where
  "create_task c s =
     (let i = length (tasks s) in
      (i, emit (CreateTask i) (s\<lparr>tasks := tasks s @ [new_task c]\<rparr>)))"

text \<open>\<^verbatim>\<open>Task.set_name\<close> exists from Python 3.8 on; before, the attribute lookup raises.\<close>

definition set_name :: "nat \<Rightarrow> string \<Rightarrow> state \<Rightarrow> outcome \<times> state" where
  "set_name i n s =
     (if has_set_name s
      then (Returns, emit (SetName i n) (s\<lparr>tasks := (tasks s)[i := (tasks s ! i)\<lparr>tname := Some n\<rparr>]\<rparr>))
      else (Raises (AttributeError ''set_name''), s))"

text \<open>\<^verbatim>\<open>task.cancel()\<close>: a request that the task's next step sees; no effect on a task
  that is done.\<close>

definition request_cancel :: "nat \<Rightarrow> task list \<Rightarrow> task list" where
  "request_cancel i ts =
     ts[i := (if is_done (ts ! i) then ts ! i else (ts ! i)\<lparr>must_cancel := True\<rparr>)]"

definition task_cancel :: "nat \<Rightarrow> state \<Rightarrow> state" where
  "task_cancel i s = emit (Cancel i) (s\<lparr>tasks := request_cancel i (tasks s)\<rparr>)"

text \<open>\<^verbatim>\<open>asyncio.all_tasks(loop)\<close>: the tasks of the loop that are not done (a set in
  Python; here in creation order).\<close>

definition all_tasks :: "state \<Rightarrow> nat list" where
  "all_tasks s = filter (\<lambda>i. \<not> is_done (tasks s ! i)) [0..<length (tasks s)]"

definition run_until_complete :: "nat list \<Rightarrow> bool \<Rightarrow> state \<Rightarrow> outcome \<times> state" where
  "run_until_complete ids return_exceptions s =
     (let s1 = emit (RunUntilComplete ids return_exceptions) s in
      case drive_until ids return_exceptions (tasks s1) of (r, ts) \<Rightarrow> (r, s1\<lparr>tasks := ts\<rparr>))"

text \<open>
  What ends \<^verbatim>\<open>loop.run_forever()\<close> is decided outside the program: \<open>Escapes n e\<close> is
  \<open>n\<close> iterations and then \<open>e\<close> raised by a callback of the loop (the signal handler's
  \<^verbatim>\<open>SystemExit\<close>, or a fault); \<open>Stopped n\<close> is a \<^verbatim>\<open>loop.stop()\<close> that takes effect at the
  end of iteration \<open>n + 1\<close>, so \<open>Stopped 0\<close> is \<^verbatim>\<open>run_forever\<close> right after \<^verbatim>\<open>stop\<close>.
  A task that raises \<^verbatim>\<open>SystemExit\<close> or \<^verbatim>\<open>KeyboardInterrupt\<close> earlier ends the drive earlier.
\<close>

datatype drive = Escapes nat exn | Stopped nat

definition run_forever :: "drive \<Rightarrow> state \<Rightarrow> outcome \<times> state" where
  "run_forever d s =
     (let s1 = emit RunForever s in
      case d of
        Escapes n e \<Rightarrow>
          (case iterate n (tasks s1) of
             (Some e', ts) \<Rightarrow> (Raises e', s1\<lparr>tasks := ts\<rparr>)
           | (None, ts) \<Rightarrow> (Raises e, s1\<lparr>tasks := ts\<rparr>))
      | Stopped n \<Rightarrow>
          (case iterate (Suc n) (tasks s1) of
             (Some e', ts) \<Rightarrow> (Raises e', s1\<lparr>tasks := ts\<rparr>)
           | (None, ts) \<Rightarrow> (Returns, s1\<lparr>tasks := ts\<rparr>)))"

text \<open>\<^verbatim>\<open>loop.run_until_complete(loop.shutdown_asyncgens())\<close> and \<^verbatim>\<open>loop.close()\<close>.\<close>

definition shutdown_asyncgens :: "state \<Rightarrow> state" where
  "shutdown_asyncgens s = emit ShutdownAsyncgens (s\<lparr>asyncgens_closed := True\<rparr>)"

definition loop_close :: "state \<Rightarrow> state" where
  "loop_close s = emit LoopClose (s\<lparr>closed := True\<rparr>)"

section \<open>Starting feeds\<close>

text \<open>Modelled from the spec: \<^verbatim>\<open>Feed.start(loop)\<close> begins the Feed's connection loops as
  tasks on the given loop.\<close>

definition feed_start :: "feed \<Rightarrow> state \<Rightarrow> state" where
  "feed_start f s = fold (\<lambda>c s'. snd (create_task c s')) (start_coros f) (emit (FeedStart (feed_id f)) s)"

definition setup_signal_handlers :: "state \<Rightarrow> state" where
  "setup_signal_handlers s =
     (if take 3 (platform s) = ''win''
      then fold (\<lambda>sig. emit (SignalSignal sig)) (SIGNALS s) s
      else fold (\<lambda>sig. emit (AddSignalHandler sig)) (SIGNALS s) s)"

text \<open>\<^verbatim>\<open>add_feed_running(feed, loop=None, **kwargs)\<close> calls
  \<^verbatim>\<open>self.add_feed(feed, *kwargs)\<close>: the keys of \<^verbatim>\<open>kwargs\<close> become positional arguments.\<close>

definition add_feed_running :: "feed_spec \<Rightarrow> kwargs \<Rightarrow> state \<Rightarrow> outcome \<times> state" where
  "add_feed_running fd kw s =
     (case call_add_feed (fd # map (\<lambda>k. Name (fst k)) kw) [] s of
        (Returns, s1) \<Rightarrow>
          (case feeds s1 of
             [] \<Rightarrow> (Raises (IndexError ''list index out of range''), s1)
           | _ \<Rightarrow> (Returns, feed_start (last (feeds s1)) s1))
      | (r, s1) \<Rightarrow> (r, s1))"

section \<open>\<^verbatim>\<open>add_nbbo\<close>\<close>

definition nbbo_kwargs :: "string list \<Rightarrow> nat \<Rightarrow> kwargs" where
  "nbbo_kwargs symbols cb =
     [(''channels'', PList [PChan L2_BOOK]),
      (''symbols'', PList (map PStr symbols)),
      (''callbacks'', PDict [(PChan L2_BOOK, PNBBO cb)])]"

fun add_nbbo_feeds :: "feed_ctor list \<Rightarrow> kwargs \<Rightarrow> state \<Rightarrow> outcome \<times> state" where
  "add_nbbo_feeds [] kw s = (Returns, s)"
| "add_nbbo_feeds (c # cs) kw s =
     (case c kw of
        Inl e \<Rightarrow> (Raises e, s)
      | Inr f \<Rightarrow>
          (case call_add_feed [Instance f] [] s of
             (Returns, s1) \<Rightarrow> add_nbbo_feeds cs kw s1
           | (r, s1) \<Rightarrow> (r, s1)))"

text \<open>\<^verbatim>\<open>cb = NBBO(callback, symbols)\<close> puts one new object into the store; \<open>PNBBO cb\<close>
  refers to it by its index.\<close>

definition add_nbbo :: "feed_ctor list \<Rightarrow> string list \<Rightarrow> string \<Rightarrow> state \<Rightarrow> outcome \<times> state" where
  "add_nbbo fs symbols callback s =
     (let cb = length (nbbos s);
          s1 = s\<lparr>nbbos := nbbos s @ [NBBO callback symbols]\<rparr>
      in add_nbbo_feeds fs (nbbo_kwargs symbols cb) s1)"

section \<open>\<^verbatim>\<open>stop\<close>, \<^verbatim>\<open>close\<close> and \<^verbatim>\<open>run\<close>\<close>

text \<open>The \<^verbatim>\<open>loop\<close> argument of \<^verbatim>\<open>stop\<close> and \<^verbatim>\<open>close\<close> is the one loop of the state,
  which is also what \<^verbatim>\<open>asyncio.get_event_loop()\<close> gives when the argument is left out.\<close>

text \<open>The loop of \<^verbatim>\<open>stop\<close> over \<^verbatim>\<open>self.feeds\<close>. \<^verbatim>\<open>set_name\<close> raises nothing but the
  \<^verbatim>\<open>AttributeError\<close> that the source passes over, so either way the loop goes on.\<close>

fun stop_tasks :: "feed list \<Rightarrow> nat list \<Rightarrow> state \<Rightarrow> nat list \<times> state" where
  "stop_tasks [] shutdown_tasks s = (shutdown_tasks, s)"
| "stop_tasks (f # fs) shutdown_tasks s =
     (case create_task (shutdown_coro f) s of
        (task, s1) \<Rightarrow>
          (case set_name task (''shutdown_feed_'' @ feed_id f) s1 of
             (r, s2) \<Rightarrow> stop_tasks fs (shutdown_tasks @ [task]) s2))"

definition stop :: "state \<Rightarrow> outcome \<times> state" where
  "stop s =
     (let s1 = emit (Log INFO ''FH: flag retries=0 to stop the tasks running the connection handlers'' []) s;
          s2 = emit (SetRetries 0) (s1\<lparr>retries := Some 0\<rparr>);
          s3 = emit (Log INFO ''FH: create the tasks to properly shutdown the backends (to flush the local cache)'' []) s2
      in case stop_tasks (feeds s3) [] s3 of
           (shutdown_tasks, s4) \<Rightarrow>
             run_until_complete shutdown_tasks False
               (emit (Log INFO ''FH: wait %s backend tasks until termination''
                        [PInt (int (length shutdown_tasks))]) s4))"

text \<open>\<^verbatim>\<open>close\<close> passes \<^verbatim>\<open>loop=loop\<close> to \<^verbatim>\<open>asyncio.gather\<close>, which Python accepts up to
  version 3.9; that is the Python taken here. A call that raises or never returns ends
  \<^verbatim>\<open>close\<close> there.\<close>

definition close :: "state \<Rightarrow> outcome \<times> state" where
  "close s =
     (let s1 = emit (Log INFO ''FH: stop the AsyncIO loop'' []) s;
          s2 = emit LoopStop s1;
          s3 = emit (Log INFO ''FH: run the AsyncIO event loop one last time'' []) s2
      in case run_forever (Stopped 0) s3 of
           (Returns, s4) \<Rightarrow>
             (let pending = all_tasks s4;
                  s5 = emit (Log INFO ''FH: cancel the %s pending tasks'' [PInt (int (length pending))]) s4;
                  s6 = fold task_cancel pending s5;
                  s7 = emit (Log INFO ''FH: run the pending tasks until complete'' []) s6
              in case run_until_complete pending True s7 of
                   (Returns, s8) \<Rightarrow>
                     (let s9 = emit (Log INFO ''FH: shutdown asynchronous generators'' []) s8;
                          s10 = shutdown_asyncgens s9;
                          s11 = emit (Log INFO ''FH: close the AsyncIO loop'' []) s10
                      in (Returns, loop_close s11))
                 | (r, s8) \<Rightarrow> (r, s8))
         | (r, s4) \<Rightarrow> (r, s4))"

fun join :: "string \<Rightarrow> string list \<Rightarrow> string" where
  "join sep [] = []"
| "join sep [x] = x"
| "join sep (x # xs) = x @ sep @ join sep xs"

text \<open>\<^verbatim>\<open>str(list(_EXCHANGES.keys()))\<close>, for keys without quotes or escapes.\<close>

definition py_repr_list :: "string list \<Rightarrow> string" where
  "py_repr_list ks = ''['' @ join '', '' (map (\<lambda>k. [CHR 0x27] @ k @ [CHR 0x27]) ks) @ '']''"

definition run :: "bool \<Rightarrow> bool \<Rightarrow> string option \<Rightarrow> drive \<Rightarrow> state \<Rightarrow> outcome \<times> state" where
  "run start_loop install_signal_handlers handler d s =
     (if length (feeds s) = 0 then
        (let txt = ''FH: No feed specified. Please specify at least one feed among ''
                     @ py_repr_list (map fst (EXCHANGES s))
         in (Raises (ValueError txt), emit (Log CRITICAL txt []) s))
      else
        (let s1 = (if install_signal_handlers then setup_signal_handlers s else s);
             s2 = fold feed_start (feeds s1) s1
         in if \<not> start_loop then (Returns, s2)
            else
              (let s3 = (case handler of
                           Some h \<Rightarrow> emit (SetExceptionHandler h) (s2\<lparr>exception_handler := Some h\<rparr>)
                         | None \<Rightarrow> s2)
               in case run_forever d s3 of
                    (r, s4) \<Rightarrow>
                      (let (unhandled, s5) =
                             (case r of
                                Raises e \<Rightarrow>
                                  if e = SystemExit
                                  then (None, emit (Log INFO ''FH: System Exit received - shutting down'' []) s4)
                                  else if is_Exception e
                                  then (None, emit (Log EXCEPTION ''FH: Unhandled %r - shutting down'' [PExn e]) s4)
                                  else (Some e, s4)
                              | _ \<Rightarrow> (None, s4))
                       in case stop s5 of
                            (Returns, s6) \<Rightarrow>
                              (case close s6 of
                                 (Returns, s7) \<Rightarrow>
                                   (case unhandled of
                                      None \<Rightarrow> (Returns, emit (Log INFO ''FH: leaving run()'' []) s7)
                                    | Some e \<Rightarrow> (Raises e, s7))
                               | (r2, s7) \<Rightarrow> (r2, s7))
                          | (r1, s6) \<Rightarrow> (r1, s6)))))"

section \<open>The NBBO aggregator\<close>

text \<open>
  Modelled from the spec: \<^verbatim>\<open>cryptofeed.nbbo.NBBO\<close> is not part of the source at hand. The
  aggregator keeps one quote for each pair of symbol and source, replaced in place by a
  later update of the same pair; a source is registered when the aggregator first hears
  of it. The aggregate of a symbol is recomputed from all quotes currently known for the
  symbol, taken in registration order: the bid is the quote with the maximum bid price,
  ties broken by the larger bid size and then by the earlier registration; the ask is the
  quote with the minimum ask price, ties broken by the smaller ask size and then by the
  earlier registration. The callback is called with the new aggregate only if it differs
  from the aggregate last emitted for the symbol. Prices, sizes and timestamps are exact
  rationals.
\<close>

record quote =
  bid_price :: rat
  bid_size :: rat
  ask_price :: rat
  ask_size :: rat
  timestamp :: rat

record aggregate =
  best_bid_price :: rat
  best_bid_size :: rat
  best_bid_source :: string
  best_ask_price :: rat
  best_ask_size :: rat
  best_ask_source :: string

record aggregator =
  sources :: "string list"
  quotes :: "string \<times> string \<Rightarrow> quote option"
  last_emitted :: "string \<Rightarrow> aggregate option"
  emitted :: "(string \<times> aggregate) list"

definition new_aggregator :: aggregator where
  "new_aggregator =
     \<lparr>sources = [], quotes = (\<lambda>k. None), last_emitted = (\<lambda>k. None), emitted = []\<rparr>"

definition known :: "aggregator \<Rightarrow> string \<Rightarrow> (string \<times> quote) list" where
  "known st symbol = List.map_filter (\<lambda>src. map_option (Pair src) (quotes st (symbol, src))) (sources st)"

definition better_bid :: "string \<times> quote \<Rightarrow> string \<times> quote \<Rightarrow> bool" where
  "better_bid x b =
     (bid_price (snd b) < bid_price (snd x)
      \<or> (bid_price (snd x) = bid_price (snd b) \<and> bid_size (snd b) < bid_size (snd x)))"

definition better_ask :: "string \<times> quote \<Rightarrow> string \<times> quote \<Rightarrow> bool" where
  "better_ask x b =
     (ask_price (snd x) < ask_price (snd b)
      \<or> (ask_price (snd x) = ask_price (snd b) \<and> ask_size (snd x) < ask_size (snd b)))"

text \<open>One pass in registration order; a later quote replaces the best so far only when
  it is strictly better.\<close>

fun pick :: "('a \<Rightarrow> 'a \<Rightarrow> bool) \<Rightarrow> 'a \<Rightarrow> 'a list \<Rightarrow> 'a" where
  "pick better b [] = b"
| "pick better b (x # xs) = pick better (if better x b then x else b) xs"

text \<open>Modelled from the spec: the recompute rule of the aggregator (\<^verbatim>\<open>NBBO\<close> is not part
  of the source at hand). No aggregate exists for a symbol without quotes.\<close>

definition recompute :: "aggregator \<Rightarrow> string \<Rightarrow> aggregate option" where
  "recompute st symbol =
     (case known st symbol of
        [] \<Rightarrow> None
      | c # cs \<Rightarrow>
          (let b = pick better_bid c cs; a = pick better_ask c cs in
           Some \<lparr>best_bid_price = bid_price (snd b), best_bid_size = bid_size (snd b),
                 best_bid_source = fst b,
                 best_ask_price = ask_price (snd a), best_ask_size = ask_size (snd a),
                 best_ask_source = fst a\<rparr>))"

text \<open>Modelled from the spec: \<^verbatim>\<open>ingest\<close> of the aggregator (\<^verbatim>\<open>NBBO\<close> is not part of the
  source at hand): replace the quote of the pair, recompute the aggregate of the symbol,
  emit it if it differs from the last one emitted for the symbol.\<close>

definition ingest ::
  "string \<Rightarrow> string \<Rightarrow> rat \<Rightarrow> rat \<Rightarrow> rat \<Rightarrow> rat \<Rightarrow> rat \<Rightarrow> aggregator \<Rightarrow> aggregator" where
  "ingest symbol src bp bs ap az ts st =
     (let q = \<lparr>bid_price = bp, bid_size = bs, ask_price = ap, ask_size = az, timestamp = ts\<rparr>;
          st1 = st\<lparr>sources := (if src \<in> set (sources st) then sources st else sources st @ [src]),
                   quotes := (quotes st)((symbol, src) \<mapsto> q)\<rparr>
      in case recompute st1 symbol of
           None \<Rightarrow> st1
         | Some a \<Rightarrow>
             if last_emitted st1 symbol = Some a then st1
             else st1\<lparr>last_emitted := (last_emitted st1)(symbol \<mapsto> a),
                      emitted := emitted st1 @ [(symbol, a)]\<rparr>)"

section \<open>Reading traces\<close>

fun is_FeedStart :: "event \<Rightarrow> bool" where
  "is_FeedStart (FeedStart n) = True"
| "is_FeedStart _ = False"

fun is_CreateTask :: "event \<Rightarrow> bool" where
  "is_CreateTask (CreateTask i) = True"
| "is_CreateTask _ = False"


text \<open>The events of \<^verbatim>\<open>for feed in self.feeds: feed.start(loop)\<close> when the loop holds
  \<open>n\<close> tasks, and those of \<^verbatim>\<open>setup_signal_handlers\<close>.\<close>

fun start_events :: "nat \<Rightarrow> feed list \<Rightarrow> event list" where
  "start_events n [] = []"
| "start_events n (f # fs) =
     FeedStart (feed_id f) # map CreateTask [n..<n + length (start_coros f)]
       @ start_events (n + length (start_coros f)) fs"

definition signal_events :: "state \<Rightarrow> event list" where
  "signal_events s =
     map (if take 3 (platform s) = ''win'' then SignalSignal else AddSignalHandler) (SIGNALS s)"

text \<open>The events of the loop of \<^verbatim>\<open>stop\<close> when the loop holds \<open>n\<close> tasks and
  \<^verbatim>\<open>set_name\<close> exists (\<open>named\<close>) or not.\<close>

fun shutdown_events :: "bool \<Rightarrow> nat \<Rightarrow> feed list \<Rightarrow> event list" where
  "shutdown_events named n [] = []"
| "shutdown_events named n (f # fs) =
     CreateTask n # (if named then [SetName n (''shutdown_feed_'' @ feed_id f)] else [])
       @ shutdown_events named (Suc n) fs"

definition shutdown_task :: "bool \<Rightarrow> feed \<Rightarrow> task" where
  "shutdown_task named f =
     \<lparr>tname = (if named then Some (''shutdown_feed_'' @ feed_id f) else None),
      tstate = NotStarted (shutdown_coro f), must_cancel = False\<rparr>"

text \<open>The state in which \<^verbatim>\<open>stop\<close> calls \<^verbatim>\<open>run_until_complete\<close>, in closed form: the flag
  is set, one task per registered Feed is on the loop, not yet stepped.\<close>

definition shutdown_scheduled :: "state \<Rightarrow> state" where
  "shutdown_scheduled s =
     s\<lparr>retries := Some 0,
       tasks := tasks s @ map (shutdown_task (has_set_name s)) (feeds s),
       trace := trace s
         @ [Log INFO ''FH: flag retries=0 to stop the tasks running the connection handlers'' [],
            SetRetries 0,
            Log INFO ''FH: create the tasks to properly shutdown the backends (to flush the local cache)'' []]
         @ shutdown_events (has_set_name s) (length (tasks s)) (feeds s)
         @ [Log INFO ''FH: wait %s backend tasks until termination'' [PInt (int (length (feeds s)))]]\<rparr>"




section \<open>Example objects\<close>

definition demo_feed :: "string \<Rightarrow> coro \<Rightarrow> feed" where
  "demo_feed n sd = \<lparr>feed_id = n, start_coros = [Block (Raise CancelledError)], shutdown_coro = sd\<rparr>"

definition demo_ctor :: "string \<Rightarrow> feed_ctor" where
  "demo_ctor n kw = Inr (demo_feed n (Await Return (Raise CancelledError)))"

text \<open>A new \<^verbatim>\<open>FeedHandler(config)\<close> with no feeds, in a fresh process on Linux with
  Python 3.8 or later and the exchange registry \<open>reg\<close>.\<close>

definition init :: "pyval \<Rightarrow> (string \<times> feed_ctor) list \<Rightarrow> state" where
  "init cfg reg =
     \<lparr>feeds = [], config = PConfig cfg, retries = None, EXCHANGES = reg,
      SIGNALS = [SIGABRT, SIGINT, SIGTERM, SIGHUP], platform = ''linux'', has_set_name = True,
      tasks = [], exception_handler = None, asyncgens_closed = False, closed = False,
      nbbos = [], trace = []\<rparr>"

text \<open>A coroutine that awaits \<open>n\<close> times and returns, and ends cancelled when it is
  cancelled; a shutdown that takes six awaits.\<close>

fun awaits :: "nat \<Rightarrow> coro" where
  "awaits 0 = Return"
| "awaits (Suc n) = Await (awaits n) (Raise CancelledError)"

definition slow :: coro where
  "slow = awaits 6"

definition demo_state :: state where
  "demo_state = init PNone [(''BINANCE'', demo_ctor ''BINANCE''), (''KRAKEN'', demo_ctor ''KRAKEN'')]"

text \<open>A Feed class that keeps the name of the class and checks how it was configured: its
  instance shuts down at once if it was given the order-book channel alone and some
  callbacks, and can not be built otherwise.\<close>

definition book_ctor :: "string \<Rightarrow> feed_ctor" where
  "book_ctor n kw =
     (if map_of kw ''channels'' = Some (PList [PChan L2_BOOK]) \<and> map_of kw ''callbacks'' \<noteq> None
      then Inr (demo_feed n Return)
      else Inl (ValueError ''unsupported configuration''))"

definition two_feeds :: state where
  "two_feeds = demo_state\<lparr>feeds := [demo_feed ''A'' (Await Return (Raise CancelledError)), demo_feed ''B'' slow]\<rparr>"

definition failing_feeds :: state where
  "failing_feeds = demo_state\<lparr>feeds := [demo_feed ''A'' (Raise (RuntimeError ''flush failed'')), demo_feed ''B'' slow]\<rparr>"

text \<open>A loop in the middle of its life: a connection handler waiting for a message, one
  that is about to wait and fails when it is cancelled there, and a task that is done.\<close>

definition running :: state where
  "running = two_feeds\<lparr>tasks :=
     [\<lparr>tname = None, tstate = BlockedAt (Raise CancelledError), must_cancel = False\<rparr>,
      \<lparr>tname = None,
        tstate = SuspendedAt (Block (Raise (RuntimeError ''socket closed''))) (Raise CancelledError),
        must_cancel = False\<rparr>,
      \<lparr>tname = Some ''shutdown_feed_A'', tstate = Done Returned, must_cancel = False\<rparr>]\<rparr>"


section \<open>Facts about starting feeds\<close>

lemma create_task_snd:
  "snd (create_task c s)
     = s\<lparr>tasks := tasks s @ [new_task c], trace := trace s @ [CreateTask (length (tasks s))]\<rparr>"
  by (simp add: create_task_def emit_def Let_def)

lemma upt_add_Suc: "[n..<Suc (n + k)] = n # [Suc n..<Suc (n + k)]"
  by (simp add: upt_conv_Cons del: upt_Suc)

lemma create_tasks_fold:
  "fold (\<lambda>c s'. snd (create_task c s')) cs s
     = s\<lparr>tasks := tasks s @ map new_task cs,
          trace := trace s @ map CreateTask [length (tasks s)..<length (tasks s) + length cs]\<rparr>"
proof (induction cs arbitrary: s)
  case Nil
  show ?case by simp
next
  case (Cons c cs)
  let ?F = "\<lambda>c s'. snd (create_task c s')"
  have "fold ?F (c # cs) s = fold ?F cs (snd (create_task c s))"
    by simp
  also note Cons.IH
  finally show ?case
    by (simp add: create_task_snd upt_add_Suc del: upt_Suc)
qed

lemma feed_start_eq:
  "feed_start f s
     = s\<lparr>tasks := tasks s @ map new_task (start_coros f),
          trace := trace s @ FeedStart (feed_id f)
                     # map CreateTask [length (tasks s)..<length (tasks s) + length (start_coros f)]\<rparr>"
  by (simp add: feed_start_def create_tasks_fold emit_def)

lemma feeds_start_fold:
  "fold feed_start fs s
     = s\<lparr>tasks := tasks s @ map new_task (concat (map start_coros fs)),
          trace := trace s @ start_events (length (tasks s)) fs\<rparr>"
proof (induction fs arbitrary: s)
  case Nil
  show ?case by simp
next
  case (Cons f fs)
  have "fold feed_start (f # fs) s = fold feed_start fs (feed_start f s)"
    by simp
  also note Cons.IH
  finally show ?case
    using feed_start_eq [of f s] by simp
qed

lemma emit_fold: "fold (\<lambda>x. emit (g x)) xs s = s\<lparr>trace := trace s @ map g xs\<rparr>"
proof (induction xs arbitrary: s)
  case Nil
  show ?case by simp
next
  case (Cons x xs)
  have "fold (\<lambda>x. emit (g x)) (x # xs) s = fold (\<lambda>x. emit (g x)) xs (emit (g x) s)"
    by simp
  also note Cons.IH
  finally show ?case
    using emit_def [of "g x" s] by simp
qed

lemma setup_signal_handlers_eq:
  "setup_signal_handlers s = s\<lparr>trace := trace s @ signal_events s\<rparr>"
  by (simp add: setup_signal_handlers_def signal_events_def emit_fold)

lemma start_events_FeedStart:
  "filter is_FeedStart (start_events n fs) = map (\<lambda>f. FeedStart (feed_id f)) fs"
  by (induction fs arbitrary: n) (auto simp: filter_empty_conv)

lemma start_events_only:
  "list_all (\<lambda>e. is_FeedStart e \<or> is_CreateTask e) (start_events n fs)"
  by (induction fs arbitrary: n) (auto simp: list_all_iff)

section \<open>Claims about registration\<close>






section \<open>Claims about \<^verbatim>\<open>run\<close> before the loop is driven\<close>

text \<open>
  C3. On a handler with no registered Feed, \<^verbatim>\<open>run\<close> raises the \<^verbatim>\<open>ValueError\<close> that names
  the known exchanges, whatever its arguments; the only thing it does before is to log that
  text at critical severity. The tasks of the loop, the signal handlers and every other
  part of the state are as before: no Feed is started and the loop is not driven.
\<close>

theorem run_no_feeds:
  "feeds s = [] \<Longrightarrow>
   run start_loop install_signal_handlers handler d s
     = (Raises (ValueError (''FH: No feed specified. Please specify at least one feed among ''
                              @ py_repr_list (map fst (EXCHANGES s)))),
        s\<lparr>trace := trace s @ [Log CRITICAL (''FH: No feed specified. Please specify at least one feed among ''
                              @ py_repr_list (map fst (EXCHANGES s))) []]\<rparr>)"
  by (simp add: run_def emit_def Let_def)

lemma demo_state_simps:
  "feeds demo_state = []" "tasks demo_state = []" "trace demo_state = []"
  "EXCHANGES demo_state = [(''BINANCE'', demo_ctor ''BINANCE''), (''KRAKEN'', demo_ctor ''KRAKEN'')]"
  "SIGNALS demo_state = [SIGABRT, SIGINT, SIGTERM, SIGHUP]" "platform demo_state = ''linux''"
  "has_set_name demo_state" "retries demo_state = None" "nbbos demo_state = []"
  "config demo_state = PConfig PNone" "\<not> closed demo_state" "\<not> asyncgens_closed demo_state"
  "exception_handler demo_state = None"
  by (simp_all add: demo_state_def init_def)

theorem run_no_feeds_witness:
  "feeds demo_state = [] \<and>
   fst (run True True None (Escapes 0 SystemExit) demo_state)
     = Raises (ValueError ''FH: No feed specified. Please specify at least one feed among ['BINANCE', 'KRAKEN']'')
   \<and> tasks (snd (run True True None (Escapes 0 SystemExit) demo_state)) = []
   \<and> trace (snd (run True True None (Escapes 0 SystemExit) demo_state))
     = [Log CRITICAL ''FH: No feed specified. Please specify at least one feed among ['BINANCE', 'KRAKEN']'' []]"
  using run_no_feeds [of demo_state True True None "Escapes 0 SystemExit"]
  by (simp add: demo_state_simps py_repr_list_def)

text \<open>
  C6. With \<^verbatim>\<open>start_loop\<close> false and at least one registered Feed, \<^verbatim>\<open>run\<close> returns after
  starting every registered Feed, in registration order: the loop gains the tasks the
  Feeds schedule, none of them stepped, and the trace gains the signal handlers (if asked
  for) and the starts, nothing else. The exception handler is not installed, the loop is
  not driven, and neither \<^verbatim>\<open>stop\<close> nor \<^verbatim>\<open>close\<close> runs.
\<close>

theorem run_without_loop:
  "feeds s \<noteq> [] \<Longrightarrow>
   run False install_signal_handlers handler d s
     = (Returns,
        s\<lparr>tasks := tasks s @ map new_task (concat (map start_coros (feeds s))),
          trace := trace s @ (if install_signal_handlers then signal_events s else [])
                     @ start_events (length (tasks s)) (feeds s)\<rparr>)
   \<and> filter is_FeedStart (start_events (length (tasks s)) (feeds s))
       = map (\<lambda>f. FeedStart (feed_id f)) (feeds s)
   \<and> list_all (\<lambda>e. is_FeedStart e \<or> is_CreateTask e) (start_events (length (tasks s)) (feeds s))"
  by (simp add: run_def Let_def feeds_start_fold setup_signal_handlers_eq
        start_events_FeedStart start_events_only)

lemma two_feeds_simps:
  "feeds two_feeds = [demo_feed ''A'' (Await Return (Raise CancelledError)), demo_feed ''B'' slow]"
  "tasks two_feeds = []" "trace two_feeds = []"
  "SIGNALS two_feeds = [SIGABRT, SIGINT, SIGTERM, SIGHUP]" "platform two_feeds = ''linux''"
  "has_set_name two_feeds" "retries two_feeds = None"
  "\<not> closed two_feeds" "\<not> asyncgens_closed two_feeds"
  "exception_handler two_feeds = None"
  by (simp_all add: two_feeds_def demo_state_def init_def)

theorem run_without_loop_witness:
  "feeds two_feeds \<noteq> [] \<and>
   fst (run False True (Some ''handler'') (Stopped 0) two_feeds) = Returns
   \<and> tasks (snd (run False True (Some ''handler'') (Stopped 0) two_feeds))
       = [new_task (Block (Raise CancelledError)), new_task (Block (Raise CancelledError))]
   \<and> trace (snd (run False True (Some ''handler'') (Stopped 0) two_feeds))
       = [AddSignalHandler SIGABRT, AddSignalHandler SIGINT, AddSignalHandler SIGTERM,
          AddSignalHandler SIGHUP, FeedStart ''A'', CreateTask 0, FeedStart ''B'', CreateTask 1]
   \<and> exception_handler (snd (run False True (Some ''handler'') (Stopped 0) two_feeds)) = None
   \<and> retries (snd (run False True (Some ''handler'') (Stopped 0) two_feeds)) = None
   \<and> \<not> closed (snd (run False True (Some ''handler'') (Stopped 0) two_feeds))"
  using run_without_loop [of two_feeds True "Some ''handler''" "Stopped 0"]
  by (simp add: two_feeds_simps signal_events_def demo_feed_def)

section \<open>Claims about \<^verbatim>\<open>add_feed_running\<close> and \<^verbatim>\<open>add_nbbo\<close>\<close>

lemma add_feed_Returns:
  "add_feed fd kw s = (Returns, s1) \<Longrightarrow> \<exists>f. s1 = s\<lparr>feeds := feeds s @ [f]\<rparr>"
  by (auto simp: add_feed_def split: feed_spec.splits option.splits sum.splits)

text \<open>
  C10. \<^verbatim>\<open>add_feed_running\<close> with at least one keyword argument raises \<^verbatim>\<open>TypeError\<close> and
  changes nothing: the keys are handed to \<^verbatim>\<open>add_feed\<close> as positional arguments, which
  takes one, so no Feed is built, registered or started. A call that returns had no
  keyword arguments; it has registered one Feed through \<^verbatim>\<open>add_feed\<close> with no options and
  started that Feed on the loop.
\<close>

theorem add_feed_running_kwargs:
  "(kw \<noteq> [] \<longrightarrow>
      add_feed_running fd kw s
        = (Raises (TypeError ''add_feed() takes 2 positional arguments but more were given''), s))
   \<and> (fst (add_feed_running fd kw s) = Returns \<longrightarrow>
        kw = []
        \<and> fst (add_feed fd [] s) = Returns
        \<and> feeds (snd (add_feed fd [] s)) = feeds s @ [last (feeds (snd (add_feed fd [] s)))]
        \<and> snd (add_feed_running fd kw s)
            = feed_start (last (feeds (snd (add_feed fd [] s)))) (snd (add_feed fd [] s)))"
proof (cases kw)
  case Nil
  show ?thesis
  proof (cases "add_feed fd [] s")
    case (Pair r s1)
    show ?thesis
    proof (cases "r = Returns")
      case True
      with Pair add_feed_Returns [of fd "[]" s s1]
      obtain f where f: "s1 = s\<lparr>feeds := feeds s @ [f]\<rparr>" by blast
      have fs: "feeds s1 = feeds s @ [f]" unfolding f by simp
      then have "add_feed_running fd [] s = (Returns, feed_start (last (feeds s1)) s1)"
        using Pair True
        by (cases "feeds s") (simp_all add: add_feed_running_def call_add_feed_def)
      with Nil Pair True fs show ?thesis by simp
    next
      case False
      with Nil Pair show ?thesis
        by (cases r) (simp_all add: add_feed_running_def call_add_feed_def)
    qed
  qed
next
  case (Cons k ks)
  then show ?thesis
    by (simp add: add_feed_running_def call_add_feed_def)
qed

theorem add_feed_running_kwargs_witness:
  "[(''symbols'', PList [PStr ''BTC-USD''])] \<noteq> []
   \<and> add_feed_running (Name ''KRAKEN'') [(''symbols'', PList [PStr ''BTC-USD''])] demo_state
       = (Raises (TypeError ''add_feed() takes 2 positional arguments but more were given''), demo_state)
   \<and> fst (add_feed_running (Name ''KRAKEN'') [] demo_state) = Returns
   \<and> feeds (snd (add_feed_running (Name ''KRAKEN'') [] demo_state))
       = [demo_feed ''KRAKEN'' (Await Return (Raise CancelledError))]
   \<and> tasks (snd (add_feed_running (Name ''KRAKEN'') [] demo_state))
       = [new_task (Block (Raise CancelledError))]"
proof -
  have r: "fst (add_feed_running (Name ''KRAKEN'') [] demo_state) = Returns"
    by (simp add: add_feed_running_def call_add_feed_def add_feed_def call_ctor_def
          demo_state_simps demo_ctor_def)
  have a: "add_feed (Name ''KRAKEN'') [] demo_state
        = (Returns, demo_state\<lparr>feeds := [demo_feed ''KRAKEN'' (Await Return (Raise CancelledError))]\<rparr>)"
    by (simp add: add_feed_def call_ctor_def demo_state_simps demo_ctor_def)
  from add_feed_running_kwargs [of "[]" "Name ''KRAKEN''" demo_state] r
  have s: "snd (add_feed_running (Name ''KRAKEN'') [] demo_state)
        = feed_start (last (feeds (snd (add_feed (Name ''KRAKEN'') [] demo_state))))
            (snd (add_feed (Name ''KRAKEN'') [] demo_state))"
    by simp
  from add_feed_running_kwargs [of "[(''symbols'', PList [PStr ''BTC-USD''])]" "Name ''KRAKEN''" demo_state]
  have t: "add_feed_running (Name ''KRAKEN'') [(''symbols'', PList [PStr ''BTC-USD''])] demo_state
       = (Raises (TypeError ''add_feed() takes 2 positional arguments but more were given''), demo_state)"
    by simp
  show ?thesis
    using r t by (simp add: s a feed_start_eq demo_state_simps demo_feed_def)
qed

lemma add_nbbo_feeds_ok:
  "\<forall>c\<in>set fs. \<exists>f. c kw = Inr f \<Longrightarrow>
   add_nbbo_feeds fs kw s = (Returns, s\<lparr>feeds := feeds s @ map (\<lambda>c. projr (c kw)) fs\<rparr>)"
proof (induction fs arbitrary: s)
  case Nil
  show ?case by simp
next
  case (Cons c cs)
  from Cons.prems obtain f where f: "c kw = Inr f" by auto
  from Cons.prems have "\<forall>c\<in>set cs. \<exists>f. c kw = Inr f" by simp
  from Cons.IH [OF this, of "s\<lparr>feeds := feeds s @ [f]\<rparr>"] f
  show ?case
    by (simp add: call_add_feed_def add_feed_def)
qed

text \<open>
  C8. \<^verbatim>\<open>add_nbbo\<close> builds one \<^verbatim>\<open>NBBO(callback, symbols)\<close> and, for each Feed class in
  turn, calls the class with \<^verbatim>\<open>channels=[L2_BOOK]\<close>, \<^verbatim>\<open>symbols=symbols\<close> and
  \<^verbatim>\<open>callbacks={L2_BOOK: cb}\<close>, \<open>cb\<close> being that one object, and registers the instance. When
  every class returns an instance, the call returns with exactly one new aggregator in the
  store and exactly one new Feed per class, in order, at the end of the registered feeds.
\<close>

theorem add_nbbo_registers:
  "\<forall>c\<in>set fs. \<exists>f. c [(''channels'', PList [PChan L2_BOOK]),
                         (''symbols'', PList (map PStr symbols)),
                         (''callbacks'', PDict [(PChan L2_BOOK, PNBBO (length (nbbos s)))])] = Inr f \<Longrightarrow>
   add_nbbo fs symbols callback s
     = (Returns,
        s\<lparr>nbbos := nbbos s @ [NBBO callback symbols],
          feeds := feeds s
            @ map (\<lambda>c. projr (c [(''channels'', PList [PChan L2_BOOK]),
                                  (''symbols'', PList (map PStr symbols)),
                                  (''callbacks'', PDict [(PChan L2_BOOK, PNBBO (length (nbbos s)))])])) fs\<rparr>)"
  using add_nbbo_feeds_ok [of fs "nbbo_kwargs symbols (length (nbbos s))"
          "s\<lparr>nbbos := nbbos s @ [NBBO callback symbols]\<rparr>"]
  by (simp add: add_nbbo_def nbbo_kwargs_def Let_def)

theorem add_nbbo_registers_witness:
  "book_ctor ''COINBASE'' [(''channels'', PList [PChan L2_BOOK]),
                           (''symbols'', PList (map PStr [''BTC-USD''])),
                           (''callbacks'', PDict [(PChan L2_BOOK, PNBBO (length (nbbos demo_state)))])]
     = Inr (demo_feed ''COINBASE'' Return)
   \<and> book_ctor ''GEMINI'' [(''channels'', PList [PChan L2_BOOK]),
                           (''symbols'', PList (map PStr [''BTC-USD''])),
                           (''callbacks'', PDict [(PChan L2_BOOK, PNBBO (length (nbbos demo_state)))])]
     = Inr (demo_feed ''GEMINI'' Return)
   \<and> fst (add_nbbo [book_ctor ''COINBASE'', book_ctor ''GEMINI''] [''BTC-USD''] ''on_nbbo'' demo_state)
       = Returns
   \<and> nbbos (snd (add_nbbo [book_ctor ''COINBASE'', book_ctor ''GEMINI''] [''BTC-USD''] ''on_nbbo'' demo_state))
       = [NBBO ''on_nbbo'' [''BTC-USD'']]
   \<and> feeds (snd (add_nbbo [book_ctor ''COINBASE'', book_ctor ''GEMINI''] [''BTC-USD''] ''on_nbbo'' demo_state))
       = [demo_feed ''COINBASE'' Return, demo_feed ''GEMINI'' Return]"
proof -
  have h: "\<forall>c\<in>set [book_ctor ''COINBASE'', book_ctor ''GEMINI''].
      \<exists>f. c [(''channels'', PList [PChan L2_BOOK]),
             (''symbols'', PList (map PStr [''BTC-USD''])),
             (''callbacks'', PDict [(PChan L2_BOOK, PNBBO (length (nbbos demo_state)))])] = Inr f"
    by (simp add: book_ctor_def)
  show ?thesis
    using add_nbbo_registers [OF h, of "''on_nbbo''"]
    by (simp add: demo_state_simps book_ctor_def)
qed

section \<open>Facts about the event loop\<close>


lemma run_once_length: "run_once ts = (r, ts') \<Longrightarrow> length ts' = length ts"
  by (induction ts arbitrary: r ts') (auto split: option.splits prod.splits)


lemma escaping_exn: "escaping t t' = Some e \<Longrightarrow> e = SystemExit \<or> e = KeyboardInterrupt"
  by (auto simp: escaping_def split: if_splits task_state.splits result.splits)

lemma run_once_exn: "run_once ts = (Some e, ts') \<Longrightarrow> e = SystemExit \<or> e = KeyboardInterrupt"
proof (induction ts arbitrary: ts')
  case Nil
  then show ?case by simp
next
  case (Cons t ts)
  then show ?case
    by (auto split: option.splits prod.splits dest: escaping_exn)
qed

lemma drive_until_length: "drive_until ids re ts = (r, ts') \<Longrightarrow> length ts' = length ts"
proof (induction ids re ts arbitrary: r ts' rule: drive_until.induct)
  case (1 ids re ts)
  show ?case
  proof (cases "gather_result ids re ts")
    case (Some g)
    with "1.prems" show ?thesis by (cases g) (simp_all add: drive_until.simps [of ids re ts])
  next
    case None
    show ?thesis
    proof (cases "list_ex runnable ts")
      case False
      with None "1.prems" show ?thesis by (simp add: drive_until.simps [of ids re ts])
    next
      case True
      obtain x us where ro: "run_once ts = (x, us)" by (cases "run_once ts")
      show ?thesis
      proof (cases x)
        case (Some e)
        with None True ro "1.prems" run_once_length [OF ro] show ?thesis
          by (simp add: drive_until.simps [of ids re ts])
      next
        case N: None
        with None True ro "1.prems" have "drive_until ids re us = (r, ts')"
          by (simp add: drive_until.simps [of ids re ts])
        from "1.IH" [OF None _ _ _ this] True ro N run_once_length [OF ro]
        show ?thesis by simp
      qed
    qed
  qed
qed

text \<open>What \<open>drive_until\<close> can answer: the result of the future, an exception that left the
  loop, or never.\<close>

lemma drive_until_cases:
  "drive_until ids re ts = (r, ts') \<Longrightarrow>
   (r = Returns \<and> gather_result ids re ts' = Some Returned)
   \<or> (\<exists>e. r = Raises e \<and> gather_result ids re ts' = Some (Raised e))
   \<or> (r = Never \<and> gather_result ids re ts' = None \<and> \<not> list_ex runnable ts')
   \<or> ((r = Raises SystemExit \<or> r = Raises KeyboardInterrupt) \<and> r \<noteq> Returns)"
proof (induction ids re ts arbitrary: r ts' rule: drive_until.induct)
  case (1 ids re ts)
  show ?case
  proof (cases "gather_result ids re ts")
    case (Some g)
    with "1.prems" show ?thesis by (cases g) (simp_all add: drive_until.simps [of ids re ts])
  next
    case None
    show ?thesis
    proof (cases "list_ex runnable ts")
      case False
      with None "1.prems" show ?thesis by (simp add: drive_until.simps [of ids re ts])
    next
      case True
      obtain x us where ro: "run_once ts = (x, us)" by (cases "run_once ts")
      show ?thesis
      proof (cases x)
        case (Some e)
        with None True ro "1.prems" run_once_exn [of ts e us] show ?thesis
          by (auto simp: drive_until.simps [of ids re ts])
      next
        case N: None
        with None True ro "1.prems" have "drive_until ids re us = (r, ts')"
          by (simp add: drive_until.simps [of ids re ts])
        from "1.IH" [OF None _ _ _ this] True ro N
        show ?thesis by simp
      qed
    qed
  qed
qed


lemma first_exception_None:
  "first_exception rs = None \<Longrightarrow> list_all (\<lambda>r. r \<noteq> None) rs \<Longrightarrow> Some (Raised e) \<notin> set rs"
  by (induction rs rule: first_exception.induct) auto

lemma gather_result_Returned:
  assumes "gather_result ids re ts = Some Returned" and "i \<in> set ids"
  shows "i < length ts \<and> is_done (ts ! i) \<and> (\<not> re \<longrightarrow> tstate (ts ! i) = Done Returned)"
proof -
  let ?rs = "map (task_outcome ts) ids"
  from assms(1) have all: "list_all (\<lambda>r. r \<noteq> None) ?rs"
    by (auto simp: gather_result_def Let_def split: option.splits if_splits)
  with assms(2) obtain r where r: "task_outcome ts i = Some r"
    by (auto simp: list_all_iff)
  then have d: "i < length ts" "tstate (ts ! i) = Done r"
    by (auto simp: task_outcome_def split: if_splits task_state.splits)
  have "\<not> re \<Longrightarrow> r = Returned"
  proof (cases r)
    case Returned
    then show ?thesis .
  next
    case (Raised e)
    assume "\<not> re"
    with assms(1) have "first_exception ?rs = None"
      by (auto simp: gather_result_def Let_def split: option.splits if_splits)
    from first_exception_None [OF this all, of e] assms(2) r Raised
    show ?thesis by force
  qed
  with d show ?thesis by (auto simp: is_done_def)
qed


section \<open>Facts about \<^verbatim>\<open>stop\<close>\<close>

lemma stop_tasks_eq:
  "stop_tasks fs acc s
     = (acc @ [length (tasks s)..<length (tasks s) + length fs],
        s\<lparr>tasks := tasks s @ map (shutdown_task (has_set_name s)) fs,
          trace := trace s @ shutdown_events (has_set_name s) (length (tasks s)) fs\<rparr>)"
proof (induction fs arbitrary: acc s)
  case Nil
  show ?case by simp
next
  case (Cons f fs)
  let ?s2 = "s\<lparr>tasks := tasks s @ [shutdown_task (has_set_name s) f],
               trace := trace s @ shutdown_events (has_set_name s) (length (tasks s)) [f]\<rparr>"
  have one: "(case create_task (shutdown_coro f) s of
               (task, s1) \<Rightarrow> (case set_name task (''shutdown_feed_'' @ feed_id f) s1 of
                  (r, s2) \<Rightarrow> stop_tasks fs (acc @ [task]) s2))
             = stop_tasks fs (acc @ [length (tasks s)]) ?s2"
    by (simp add: create_task_def set_name_def emit_def Let_def new_task_def shutdown_task_def)
  have "stop_tasks (f # fs) acc s = stop_tasks fs (acc @ [length (tasks s)]) ?s2"
    using one by simp
  also note Cons.IH
  finally show ?case
    by (simp add: upt_add_Suc del: upt_Suc)
qed

lemma stop_eq:
  "stop s = run_until_complete [length (tasks s)..<length (tasks s) + length (feeds s)] False
              (shutdown_scheduled s)"
  by (simp add: stop_def stop_tasks_eq emit_def shutdown_scheduled_def Let_def)

section \<open>Claims about \<^verbatim>\<open>stop\<close>\<close>

lemma run_until_complete_eq:
  "run_until_complete ids re s
     = (fst (drive_until ids re (tasks s)),
        s\<lparr>trace := trace s @ [RunUntilComplete ids re],
          tasks := snd (drive_until ids re (tasks s))\<rparr>)"
  by (simp add: run_until_complete_def emit_def Let_def split: prod.splits)

lemma shutdown_events_CreateTask:
  "filter is_CreateTask (shutdown_events named n fs) = map CreateTask [n..<n + length fs]"
  by (induction fs arbitrary: n) (simp_all add: upt_add_Suc del: upt_Suc)

lemma stop_trace:
  "trace (snd (stop s))
     = trace s
       @ [Log INFO ''FH: flag retries=0 to stop the tasks running the connection handlers'' [],
          SetRetries 0,
          Log INFO ''FH: create the tasks to properly shutdown the backends (to flush the local cache)'' []]
       @ shutdown_events (has_set_name s) (length (tasks s)) (feeds s)
       @ [Log INFO ''FH: wait %s backend tasks until termination'' [PInt (int (length (feeds s)))],
          RunUntilComplete [length (tasks s)..<length (tasks s) + length (feeds s)] False]"
  by (simp add: stop_eq run_until_complete_eq shutdown_scheduled_def)

text \<open>
  C7. Whatever happens later, \<^verbatim>\<open>stop\<close> first logs and sets \<^verbatim>\<open>self.retries = 0\<close>, the
  termination flag, and only then creates the shutdown tasks, one per registered Feed: the
  events of \<^verbatim>\<open>stop\<close> are the same for every outcome, the assignment comes before any task
  creation, and the flag is set in the state the shutdown tasks run in and in the state
  \<^verbatim>\<open>stop\<close> leaves.
\<close>

theorem stop_sets_flag_first:
  "trace (snd (stop s))
     = trace s
       @ [Log INFO ''FH: flag retries=0 to stop the tasks running the connection handlers'' [],
          SetRetries 0,
          Log INFO ''FH: create the tasks to properly shutdown the backends (to flush the local cache)'' []]
       @ shutdown_events (has_set_name s) (length (tasks s)) (feeds s)
       @ [Log INFO ''FH: wait %s backend tasks until termination'' [PInt (int (length (feeds s)))],
          RunUntilComplete [length (tasks s)..<length (tasks s) + length (feeds s)] False]
   \<and> filter is_CreateTask (shutdown_events (has_set_name s) (length (tasks s)) (feeds s))
       = map CreateTask [length (tasks s)..<length (tasks s) + length (feeds s)]
   \<and> retries (shutdown_scheduled s) = Some 0
   \<and> retries (snd (stop s)) = Some 0"
  using stop_trace [of s]
  by (simp add: stop_eq run_until_complete_eq shutdown_scheduled_def shutdown_events_CreateTask)

theorem stop_sets_flag_first_witness:
  "retries two_feeds = None
   \<and> retries (snd (stop two_feeds)) = Some 0
   \<and> trace (snd (stop two_feeds))
       = [Log INFO ''FH: flag retries=0 to stop the tasks running the connection handlers'' [],
          SetRetries 0,
          Log INFO ''FH: create the tasks to properly shutdown the backends (to flush the local cache)'' [],
          CreateTask 0, SetName 0 ''shutdown_feed_A'', CreateTask 1, SetName 1 ''shutdown_feed_B'',
          Log INFO ''FH: wait %s backend tasks until termination'' [PInt 2],
          RunUntilComplete [0, 1] False]"
  using stop_sets_flag_first [of two_feeds]
  by (simp add: two_feeds_simps demo_feed_def upt_rec)

text \<open>
  C1, as the code has it. \<^verbatim>\<open>stop\<close> schedules exactly one shutdown task per registered
  Feed, in registration order, each running that Feed's \<^verbatim>\<open>shutdown()\<close>, and then waits on
  the gather of exactly these tasks; when \<^verbatim>\<open>stop\<close> returns, every one of them has
  completed. (The gather is made without \<^verbatim>\<open>return_exceptions\<close>; what \<^verbatim>\<open>stop\<close> does
  when a shutdown task fails is shown below.)
\<close>

theorem stop_schedules_and_waits:
  "stop s = run_until_complete [length (tasks s)..<length (tasks s) + length (feeds s)] False
              (shutdown_scheduled s)
   \<and> tasks (shutdown_scheduled s) = tasks s @ map (shutdown_task (has_set_name s)) (feeds s)
   \<and> filter is_CreateTask (drop (length (trace s)) (trace (snd (stop s))))
       = map CreateTask [length (tasks s)..<length (tasks s) + length (feeds s)]
   \<and> (fst (stop s) = Returns \<longrightarrow>
        length (tasks (snd (stop s))) = length (tasks s) + length (feeds s)
        \<and> (\<forall>i<length (feeds s). tstate (tasks (snd (stop s)) ! (length (tasks s) + i)) = Done Returned))"
proof -
  let ?ids = "[length (tasks s)..<length (tasks s) + length (feeds s)]"
  let ?ts = "tasks (shutdown_scheduled s)"
  obtain r ts' where d: "drive_until ?ids False ?ts = (r, ts')"
    by (cases "drive_until ?ids False ?ts")
  have len: "length ts' = length (tasks s) + length (feeds s)"
    using drive_until_length [OF d] by (simp add: shutdown_scheduled_def)
  have st: "fst (stop s) = r" "tasks (snd (stop s)) = ts'"
    using d by (simp_all add: stop_eq run_until_complete_eq)
  have "tstate (ts' ! (length (tasks s) + i)) = Done Returned"
    if "r = Returns" and "i < length (feeds s)" for i
  proof -
    from drive_until_cases [OF d] that(1)
    have "gather_result ?ids False ts' = Some Returned" by auto
    from gather_result_Returned [OF this, of "length (tasks s) + i"] that(2)
    show ?thesis by simp
  qed
  then have 4: "fst (stop s) = Returns \<longrightarrow>
        length (tasks (snd (stop s))) = length (tasks s) + length (feeds s)
        \<and> (\<forall>i<length (feeds s). tstate (tasks (snd (stop s)) ! (length (tasks s) + i)) = Done Returned)"
    using st len by simp
  have 2: "tasks (shutdown_scheduled s) = tasks s @ map (shutdown_task (has_set_name s)) (feeds s)"
    by (simp add: shutdown_scheduled_def)
  have 3: "filter is_CreateTask (drop (length (trace s)) (trace (snd (stop s))))
       = map CreateTask ?ids"
    by (simp add: stop_trace shutdown_events_CreateTask)
  from stop_eq [of s] 2 3 4 show ?thesis by blast
qed

lemma failing_feeds_simps:
  "feeds failing_feeds = [demo_feed ''A'' (Raise (RuntimeError ''flush failed'')), demo_feed ''B'' slow]"
  "tasks failing_feeds = []" "trace failing_feeds = []"
  "SIGNALS failing_feeds = [SIGABRT, SIGINT, SIGTERM, SIGHUP]" "platform failing_feeds = ''linux''"
  "has_set_name failing_feeds" "retries failing_feeds = None"
  "\<not> closed failing_feeds" "\<not> asyncgens_closed failing_feeds"
  "exception_handler failing_feeds = None"
  by (simp_all add: failing_feeds_def demo_state_def init_def)

lemmas loop_eval =
  drive_until.simps gather_result_def task_outcome_def step_def run_code_def escaping_def
  is_done_def runnable_def new_task_def shutdown_task_def Let_def

lemma stop_two_feeds:
  "fst (stop two_feeds) = Returns"
  "tasks (snd (stop two_feeds))
     = [\<lparr>tname = Some ''shutdown_feed_A'', tstate = Done Returned, must_cancel = False\<rparr>,
        \<lparr>tname = Some ''shutdown_feed_B'', tstate = Done Returned, must_cancel = False\<rparr>]"
  by (simp_all add: stop_eq run_until_complete_eq shutdown_scheduled_def two_feeds_simps
        demo_feed_def slow_def eval_nat_numeral upt_conv_Cons loop_eval)

theorem stop_schedules_and_waits_witness:
  "fst (stop two_feeds) = Returns
   \<and> length (tasks (snd (stop two_feeds))) = 2
   \<and> tstate (tasks (snd (stop two_feeds)) ! 0) = Done Returned
   \<and> tstate (tasks (snd (stop two_feeds)) ! 1) = Done Returned"
proof -
  have r: "fst (stop two_feeds) = Returns"
    by (rule stop_two_feeds(1))
  from stop_schedules_and_waits [of two_feeds] r
  have all: "\<forall>i<length (feeds two_feeds).
               tstate (tasks (snd (stop two_feeds)) ! (length (tasks two_feeds) + i)) = Done Returned"
    and len: "length (tasks (snd (stop two_feeds))) = length (tasks two_feeds) + length (feeds two_feeds)"
    by blast+
  from all have "tstate (tasks (snd (stop two_feeds)) ! (length (tasks two_feeds) + 0)) = Done Returned"
    and "tstate (tasks (snd (stop two_feeds)) ! (length (tasks two_feeds) + 1)) = Done Returned"
    by (simp_all add: two_feeds_simps)
  with r len show ?thesis
    by (simp add: two_feeds_simps)
qed

text \<open>
  Where C1 as stated fails: of two registered Feeds the first fails in \<^verbatim>\<open>shutdown()\<close> at
  once and the second takes six awaits. \<^verbatim>\<open>stop\<close> raises the failure of
  the first while the shutdown task of the second is still suspended.
\<close>

theorem stop_raises_counterexample:
  "fst (stop failing_feeds) = Raises (RuntimeError ''flush failed'')
   \<and> tstate (tasks (snd (stop failing_feeds)) ! 1)
       = SuspendedAt (awaits 5) (Raise CancelledError)"
  by (simp add: stop_eq run_until_complete_eq shutdown_scheduled_def failing_feeds_simps
        demo_feed_def slow_def eval_nat_numeral upt_conv_Cons loop_eval)

section \<open>Facts about \<^verbatim>\<open>close\<close>\<close>




















section \<open>Claims about \<^verbatim>\<open>close\<close>\<close>






section \<open>Claims about \<^verbatim>\<open>run\<close> driving the loop\<close>

text \<open>
  Where C2 fails: two Feeds are running, the signal handler raises \<^verbatim>\<open>SystemExit\<close> in the
  first iteration of the loop, and the first Feed fails in \<^verbatim>\<open>shutdown()\<close>. \<^verbatim>\<open>run\<close> logs the
  exit and calls \<^verbatim>\<open>stop\<close>, whose gather raises the failure out of the \<^verbatim>\<open>finally\<close> block:
  \<^verbatim>\<open>close\<close> is never called, no task is cancelled, the connection handlers stay on the
  loop, the loop stays open, and \<^verbatim>\<open>run\<close> ends with the failure.
\<close>

theorem run_skips_close:
  "run True True None (Escapes 0 SystemExit) failing_feeds
     = (Raises (RuntimeError ''flush failed''),
        failing_feeds\<lparr>retries := Some 0,
          tasks :=
            [\<lparr>tname = None, tstate = BlockedAt (Raise CancelledError), must_cancel = False\<rparr>,
             \<lparr>tname = None, tstate = BlockedAt (Raise CancelledError), must_cancel = False\<rparr>,
             \<lparr>tname = Some ''shutdown_feed_A'', tstate = Done (Raised (RuntimeError ''flush failed'')),
               must_cancel = False\<rparr>,
             \<lparr>tname = Some ''shutdown_feed_B'',
               tstate = SuspendedAt (awaits 5) (Raise CancelledError),
               must_cancel = False\<rparr>],
          trace :=
            [AddSignalHandler SIGABRT, AddSignalHandler SIGINT, AddSignalHandler SIGTERM,
             AddSignalHandler SIGHUP,
             FeedStart ''A'', CreateTask 0, FeedStart ''B'', CreateTask 1,
             RunForever,
             Log INFO ''FH: System Exit received - shutting down'' [],
             Log INFO ''FH: flag retries=0 to stop the tasks running the connection handlers'' [],
             SetRetries 0,
             Log INFO ''FH: create the tasks to properly shutdown the backends (to flush the local cache)'' [],
             CreateTask 2, SetName 2 ''shutdown_feed_A'', CreateTask 3, SetName 3 ''shutdown_feed_B'',
             Log INFO ''FH: wait %s backend tasks until termination'' [PInt 2],
             RunUntilComplete [2, 3] False]\<rparr>)"
  by (simp add: run_def feeds_start_fold setup_signal_handlers_eq signal_events_def run_forever_def
        emit_def stop_eq run_until_complete_eq shutdown_scheduled_def failing_feeds_simps
        demo_feed_def slow_def eval_nat_numeral upt_conv_Cons loop_eval)

section \<open>Facts about the NBBO aggregator\<close>

lemma pick_snoc:
  "pick better b (xs @ [x]) = (if better x (pick better b xs) then x else pick better b xs)"
  by (induction xs arbitrary: b) simp_all

text \<open>When \<open>better\<close> compares a key in a linear order, \<open>pick\<close> returns the first element
  of the list that has the greatest key.\<close>

lemma pick_first_greatest:
  fixes key :: "'a \<Rightarrow> 'k::linorder"
  assumes better: "\<And>x y. better x y \<longleftrightarrow> key y < key x"
  shows "\<exists>pre post. b # xs = pre @ pick better b xs # post
           \<and> (\<forall>y\<in>set pre. key y < key (pick better b xs))
           \<and> (\<forall>y\<in>set post. key y \<le> key (pick better b xs))"
proof (induction xs rule: rev_induct)
  case Nil
  have "[b] = [] @ b # []" by simp
  then show ?case by fastforce
next
  case (snoc x xs)
  let ?m = "pick better b xs"
  from snoc obtain pre post where
    split: "b # xs = pre @ ?m # post"
    and pre: "\<forall>y\<in>set pre. key y < key ?m"
    and post: "\<forall>y\<in>set post. key y \<le> key ?m"
    by blast
  show ?case
  proof (cases "better x ?m")
    case True
    then have m': "pick better b (xs @ [x]) = x" by (simp add: pick_snoc)
    from True better have lt: "key ?m < key x" by simp
    have "\<forall>y\<in>set (b # xs). key y < key x"
    proof
      fix y assume "y \<in> set (b # xs)"
      then have "y \<in> set pre \<or> y = ?m \<or> y \<in> set post" unfolding split by auto
      with pre post lt show "key y < key x" by auto
    qed
    moreover have "b # xs @ [x] = (b # xs) @ x # []" by simp
    ultimately show ?thesis unfolding m' by (metis empty_iff list.set(1))
  next
    case False
    then have m': "pick better b (xs @ [x]) = ?m" by (simp add: pick_snoc)
    from False better have "key x \<le> key ?m" by auto
    with post have "\<forall>y\<in>set (post @ [x]). key y \<le> key ?m" by auto
    moreover from split have "b # xs @ [x] = pre @ ?m # (post @ [x])" by simp
    ultimately show ?thesis unfolding m' using pre by blast
  qed
qed

lemma better_bid_key:
  "better_bid x y \<longleftrightarrow> (bid_price (snd y), bid_size (snd y)) < (bid_price (snd x), bid_size (snd x))"
  by (auto simp: better_bid_def)

lemma better_ask_key:
  "better_ask x y \<longleftrightarrow> (- ask_price (snd y), - ask_size (snd y)) < (- ask_price (snd x), - ask_size (snd x))"
  by (auto simp: better_ask_def)


lemma pick_bid:
  "\<exists>pre post. c # cs = pre @ pick better_bid c cs # post
     \<and> (\<forall>y\<in>set (c # cs).
            bid_price (snd y) \<le> bid_price (snd (pick better_bid c cs))
            \<and> (bid_price (snd y) = bid_price (snd (pick better_bid c cs))
                 \<longrightarrow> bid_size (snd y) \<le> bid_size (snd (pick better_bid c cs))))
     \<and> (\<forall>y\<in>set pre.
            \<not> (bid_price (snd y) = bid_price (snd (pick better_bid c cs))
               \<and> bid_size (snd y) = bid_size (snd (pick better_bid c cs))))"
proof -
  let ?key = "\<lambda>y::string \<times> quote. (bid_price (snd y), bid_size (snd y))"
  let ?m = "pick better_bid c cs"
  from pick_first_greatest [of better_bid ?key c cs] better_bid_key
  obtain pre post where
    split: "c # cs = pre @ ?m # post"
    and pre: "\<forall>y\<in>set pre. ?key y < ?key ?m"
    and post: "\<forall>y\<in>set post. ?key y \<le> ?key ?m"
    by blast
  have "\<forall>y\<in>set (c # cs). ?key y \<le> ?key ?m"
    unfolding split using pre post by auto
  then have "\<forall>y\<in>set (c # cs).
            bid_price (snd y) \<le> bid_price (snd ?m)
            \<and> (bid_price (snd y) = bid_price (snd ?m) \<longrightarrow> bid_size (snd y) \<le> bid_size (snd ?m))"
    by auto
  moreover from pre have "\<forall>y\<in>set pre.
            \<not> (bid_price (snd y) = bid_price (snd ?m) \<and> bid_size (snd y) = bid_size (snd ?m))"
    by auto
  ultimately show ?thesis using split by blast
qed

lemma pick_ask:
  "\<exists>pre post. c # cs = pre @ pick better_ask c cs # post
     \<and> (\<forall>y\<in>set (c # cs).
            ask_price (snd (pick better_ask c cs)) \<le> ask_price (snd y)
            \<and> (ask_price (snd y) = ask_price (snd (pick better_ask c cs))
                 \<longrightarrow> ask_size (snd (pick better_ask c cs)) \<le> ask_size (snd y)))
     \<and> (\<forall>y\<in>set pre.
            \<not> (ask_price (snd y) = ask_price (snd (pick better_ask c cs))
               \<and> ask_size (snd y) = ask_size (snd (pick better_ask c cs))))"
proof -
  let ?key = "\<lambda>y::string \<times> quote. (- ask_price (snd y), - ask_size (snd y))"
  let ?m = "pick better_ask c cs"
  from pick_first_greatest [of better_ask ?key c cs] better_ask_key
  obtain pre post where
    split: "c # cs = pre @ ?m # post"
    and pre: "\<forall>y\<in>set pre. ?key y < ?key ?m"
    and post: "\<forall>y\<in>set post. ?key y \<le> ?key ?m"
    by blast
  have "\<forall>y\<in>set (c # cs). ?key y \<le> ?key ?m"
    unfolding split using pre post by auto
  then have "\<forall>y\<in>set (c # cs).
            ask_price (snd ?m) \<le> ask_price (snd y)
            \<and> (ask_price (snd y) = ask_price (snd ?m) \<longrightarrow> ask_size (snd ?m) \<le> ask_size (snd y))"
    by auto
  moreover from pre have "\<forall>y\<in>set pre.
            \<not> (ask_price (snd y) = ask_price (snd ?m) \<and> ask_size (snd y) = ask_size (snd ?m))"
    by auto
  ultimately show ?thesis using split by blast
qed

lemma ingest_known:
  "known (ingest symbol src bp bs ap az ts st) symbol \<noteq> []"
proof -
  let ?q = "\<lparr>bid_price = bp, bid_size = bs, ask_price = ap, ask_size = az, timestamp = ts\<rparr>"
  let ?st = "ingest symbol src bp bs ap az ts st"
  have src: "src \<in> set (sources ?st)"
    by (simp add: ingest_def Let_def split: option.splits)
  have q: "quotes ?st (symbol, src) = Some ?q"
    by (simp add: ingest_def Let_def split: option.splits)
  from src q have "(src, ?q) \<in> set (known ?st symbol)"
    by (force simp: known_def map_filter_def)
  then show ?thesis by auto
qed

lemma ingest_last_emitted:
  "last_emitted (ingest symbol src bp bs ap az ts st) symbol
     = recompute (ingest symbol src bp bs ap az ts st) symbol"
proof -
  let ?st1 = "st\<lparr>sources := (if src \<in> set (sources st) then sources st else sources st @ [src]),
                  quotes := (quotes st)((symbol, src) \<mapsto>
                    \<lparr>bid_price = bp, bid_size = bs, ask_price = ap, ask_size = az, timestamp = ts\<rparr>)\<rparr>"
  have same: "recompute (ingest symbol src bp bs ap az ts st) symbol = recompute ?st1 symbol"
    by (simp add: ingest_def Let_def recompute_def known_def split: option.splits)
  have "known ?st1 symbol = known (ingest symbol src bp bs ap az ts st) symbol"
    by (simp add: ingest_def Let_def known_def split: option.splits)
  with ingest_known [of symbol src bp bs ap az ts st]
  have "known ?st1 symbol \<noteq> []" by simp
  then obtain c cs where "known ?st1 symbol = c # cs"
    by (meson neq_Nil_conv)
  then obtain a where a: "recompute ?st1 symbol = Some a"
    by (simp add: recompute_def Let_def)
  then have "last_emitted (ingest symbol src bp bs ap az ts st) symbol = Some a"
    by (simp add: ingest_def Let_def)
  with same a show ?thesis by simp
qed


section \<open>Claims about the NBBO aggregator\<close>

text \<open>
  C9. After every ingest for a symbol, the aggregate last emitted for the symbol is the
  recomputed one: its bid is the quote of a source currently known for the symbol with the
  maximum bid price, among those the largest bid size, and among those the source
  registered first; its ask is the quote with the minimum ask price, among those the
  smallest ask size, and among those the source registered first. In particular, when A
  reports bid 10.0, size 5, ask 11.0 and B reports bid 10.5, size 3, ask 10.9 for the symbol
  X, in either order, the aggregate emitted for X after both is bid 10.5 from B and ask
  10.9 from B.
\<close>

theorem nbbo_aggregate:
  "(\<exists>a b k pre post pre' post'.
      last_emitted (ingest symbol src bp bs ap az ts st) symbol = Some a
      \<and> recompute (ingest symbol src bp bs ap az ts st) symbol = Some a
      \<and> known (ingest symbol src bp bs ap az ts st) symbol = pre @ b # post
      \<and> best_bid_source a = fst b
      \<and> best_bid_price a = bid_price (snd b) \<and> best_bid_size a = bid_size (snd b)
      \<and> (\<forall>y\<in>set (known (ingest symbol src bp bs ap az ts st) symbol).
            bid_price (snd y) \<le> best_bid_price a
            \<and> (bid_price (snd y) = best_bid_price a \<longrightarrow> bid_size (snd y) \<le> best_bid_size a))
      \<and> (\<forall>y\<in>set pre. \<not> (bid_price (snd y) = best_bid_price a \<and> bid_size (snd y) = best_bid_size a))
      \<and> known (ingest symbol src bp bs ap az ts st) symbol = pre' @ k # post'
      \<and> best_ask_source a = fst k
      \<and> best_ask_price a = ask_price (snd k) \<and> best_ask_size a = ask_size (snd k)
      \<and> (\<forall>y\<in>set (known (ingest symbol src bp bs ap az ts st) symbol).
            best_ask_price a \<le> ask_price (snd y)
            \<and> (ask_price (snd y) = best_ask_price a \<longrightarrow> best_ask_size a \<le> ask_size (snd y)))
      \<and> (\<forall>y\<in>set pre'. \<not> (ask_price (snd y) = best_ask_price a \<and> ask_size (snd y) = best_ask_size a)))
   \<and> last_emitted (ingest ''X'' ''B'' (21 / 2) 3 (109 / 10) azB tsB
                      (ingest ''X'' ''A'' 10 5 11 azA tsA new_aggregator)) ''X''
       = Some \<lparr>best_bid_price = 21 / 2, best_bid_size = 3, best_bid_source = ''B'',
                best_ask_price = 109 / 10, best_ask_size = azB, best_ask_source = ''B''\<rparr>
   \<and> last_emitted (ingest ''X'' ''A'' 10 5 11 azA tsA
                      (ingest ''X'' ''B'' (21 / 2) 3 (109 / 10) azB tsB new_aggregator)) ''X''
       = Some \<lparr>best_bid_price = 21 / 2, best_bid_size = 3, best_bid_source = ''B'',
                best_ask_price = 109 / 10, best_ask_size = azB, best_ask_source = ''B''\<rparr>"
proof -
  let ?st = "ingest symbol src bp bs ap az ts st"
  from ingest_known [of symbol src bp bs ap az ts st]
  obtain c cs where kn: "known ?st symbol = c # cs"
    by (meson neq_Nil_conv)
  let ?b = "pick better_bid c cs" and ?k = "pick better_ask c cs"
  let ?a = "\<lparr>best_bid_price = bid_price (snd ?b), best_bid_size = bid_size (snd ?b),
             best_bid_source = fst ?b,
             best_ask_price = ask_price (snd ?k), best_ask_size = ask_size (snd ?k),
             best_ask_source = fst ?k\<rparr>"
  have re: "recompute ?st symbol = Some ?a"
    by (simp add: recompute_def kn Let_def)
  with ingest_last_emitted [of symbol src bp bs ap az ts st]
  have le: "last_emitted ?st symbol = Some ?a" by simp
  from pick_bid [of c cs] obtain pre post where
    b: "c # cs = pre @ ?b # post"
       "\<forall>y\<in>set (c # cs). bid_price (snd y) \<le> bid_price (snd ?b)
            \<and> (bid_price (snd y) = bid_price (snd ?b) \<longrightarrow> bid_size (snd y) \<le> bid_size (snd ?b))"
       "\<forall>y\<in>set pre. \<not> (bid_price (snd y) = bid_price (snd ?b) \<and> bid_size (snd y) = bid_size (snd ?b))"
    by blast
  from pick_ask [of c cs] obtain pre' post' where
    k: "c # cs = pre' @ ?k # post'"
       "\<forall>y\<in>set (c # cs). ask_price (snd ?k) \<le> ask_price (snd y)
            \<and> (ask_price (snd y) = ask_price (snd ?k) \<longrightarrow> ask_size (snd ?k) \<le> ask_size (snd y))"
       "\<forall>y\<in>set pre'. \<not> (ask_price (snd y) = ask_price (snd ?k) \<and> ask_size (snd y) = ask_size (snd ?k))"
    by blast
  have general: "\<exists>a b k pre post pre' post'.
      last_emitted ?st symbol = Some a
      \<and> recompute ?st symbol = Some a
      \<and> known ?st symbol = pre @ b # post
      \<and> best_bid_source a = fst b
      \<and> best_bid_price a = bid_price (snd b) \<and> best_bid_size a = bid_size (snd b)
      \<and> (\<forall>y\<in>set (known ?st symbol).
            bid_price (snd y) \<le> best_bid_price a
            \<and> (bid_price (snd y) = best_bid_price a \<longrightarrow> bid_size (snd y) \<le> best_bid_size a))
      \<and> (\<forall>y\<in>set pre. \<not> (bid_price (snd y) = best_bid_price a \<and> bid_size (snd y) = best_bid_size a))
      \<and> known ?st symbol = pre' @ k # post'
      \<and> best_ask_source a = fst k
      \<and> best_ask_price a = ask_price (snd k) \<and> best_ask_size a = ask_size (snd k)
      \<and> (\<forall>y\<in>set (known ?st symbol).
            best_ask_price a \<le> ask_price (snd y)
            \<and> (ask_price (snd y) = best_ask_price a \<longrightarrow> best_ask_size a \<le> ask_size (snd y)))
      \<and> (\<forall>y\<in>set pre'. \<not> (ask_price (snd y) = best_ask_price a \<and> ask_size (snd y) = best_ask_size a))"
    apply (rule exI [of _ ?a], rule exI [of _ ?b], rule exI [of _ ?k])
    apply (rule exI [of _ pre], rule exI [of _ post], rule exI [of _ pre'], rule exI [of _ post'])
    using le re b k unfolding kn by simp
  have ab: "last_emitted (ingest ''X'' ''B'' (21 / 2) 3 (109 / 10) azB tsB
                      (ingest ''X'' ''A'' 10 5 11 azA tsA new_aggregator)) ''X''
       = Some \<lparr>best_bid_price = 21 / 2, best_bid_size = 3, best_bid_source = ''B'',
                best_ask_price = 109 / 10, best_ask_size = azB, best_ask_source = ''B''\<rparr>"
    by (simp add: ingest_def new_aggregator_def recompute_def known_def map_filter_def
          better_bid_def better_ask_def Let_def)
  have ba: "last_emitted (ingest ''X'' ''A'' 10 5 11 azA tsA
                      (ingest ''X'' ''B'' (21 / 2) 3 (109 / 10) azB tsB new_aggregator)) ''X''
       = Some \<lparr>best_bid_price = 21 / 2, best_bid_size = 3, best_bid_source = ''B'',
                best_ask_price = 109 / 10, best_ask_size = azB, best_ask_source = ''B''\<rparr>"
    by (simp add: ingest_def new_aggregator_def recompute_def known_def map_filter_def
          better_bid_def better_ask_def Let_def)
  from general ab ba show ?thesis by blast
qed

theorem nbbo_aggregate_witness:
  "known (ingest ''X'' ''B'' (21 / 2) 3 (109 / 10) 2 1
            (ingest ''X'' ''A'' 10 5 11 4 0 new_aggregator)) ''X''
     = [(''A'', \<lparr>bid_price = 10, bid_size = 5, ask_price = 11, ask_size = 4, timestamp = 0\<rparr>),
        (''B'', \<lparr>bid_price = 21 / 2, bid_size = 3, ask_price = 109 / 10, ask_size = 2, timestamp = 1\<rparr>)]
   \<and> emitted (ingest ''X'' ''B'' (21 / 2) 3 (109 / 10) 2 1
                (ingest ''X'' ''A'' 10 5 11 4 0 new_aggregator))
     = [(''X'', \<lparr>best_bid_price = 10, best_bid_size = 5, best_bid_source = ''A'',
                  best_ask_price = 11, best_ask_size = 4, best_ask_source = ''A''\<rparr>),
        (''X'', \<lparr>best_bid_price = 21 / 2, best_bid_size = 3, best_bid_source = ''B'',
                  best_ask_price = 109 / 10, best_ask_size = 2, best_ask_source = ''B''\<rparr>)]
   \<and> last_emitted (ingest ''X'' ''B'' (21 / 2) 3 (109 / 10) 2 1
                      (ingest ''X'' ''A'' 10 5 11 4 0 new_aggregator)) ''X''
     = Some \<lparr>best_bid_price = 21 / 2, best_bid_size = 3, best_bid_source = ''B'',
              best_ask_price = 109 / 10, best_ask_size = 2, best_ask_source = ''B''\<rparr>"
proof -
  from nbbo_aggregate [of "''X''" "''B''" "21 / 2" 3 "109 / 10" 2 1
          "ingest ''X'' ''A'' 10 5 11 4 0 new_aggregator" 2 1 4 0]
  have "last_emitted (ingest ''X'' ''B'' (21 / 2) 3 (109 / 10) 2 1
                      (ingest ''X'' ''A'' 10 5 11 4 0 new_aggregator)) ''X''
     = Some \<lparr>best_bid_price = 21 / 2, best_bid_size = 3, best_bid_source = ''B'',
              best_ask_price = 109 / 10, best_ask_size = 2, best_ask_source = ''B''\<rparr>"
    by blast
  moreover have "known (ingest ''X'' ''B'' (21 / 2) 3 (109 / 10) 2 1
            (ingest ''X'' ''A'' 10 5 11 4 0 new_aggregator)) ''X''
     = [(''A'', \<lparr>bid_price = 10, bid_size = 5, ask_price = 11, ask_size = 4, timestamp = 0\<rparr>),
        (''B'', \<lparr>bid_price = 21 / 2, bid_size = 3, ask_price = 109 / 10, ask_size = 2, timestamp = 1\<rparr>)]"
    by (simp add: ingest_def new_aggregator_def recompute_def known_def map_filter_def
          better_bid_def better_ask_def Let_def)
  moreover have "emitted (ingest ''X'' ''B'' (21 / 2) 3 (109 / 10) 2 1
                (ingest ''X'' ''A'' 10 5 11 4 0 new_aggregator))
     = [(''X'', \<lparr>best_bid_price = 10, best_bid_size = 5, best_bid_source = ''A'',
                  best_ask_price = 11, best_ask_size = 4, best_ask_source = ''A''\<rparr>),
        (''X'', \<lparr>best_bid_price = 21 / 2, best_bid_size = 3, best_bid_source = ''B'',
                  best_ask_price = 109 / 10, best_ask_size = 2, best_ask_source = ''B''\<rparr>)]"
    by (simp add: ingest_def new_aggregator_def recompute_def known_def map_filter_def
          better_bid_def better_ask_def Let_def)
  ultimately show ?thesis by blast
qed

end
